theory Spec2Isabelle
  imports Main
begin

section \<open>Strings of the host language\<close>

text \<open>
  The source is TypeScript. A source string is modelled as a \<open>string\<close> whose characters
  are the code units \<open>0..255\<close> (Latin-1); \<open>length\<close> is the source's \<open>.length\<close> and
  equality is the source's \<open>===\<close> on strings.
\<close>

definition isUpperCaseChar :: "char \<Rightarrow> bool" where
  "isUpperCaseChar c =
     (let n = (of_char c :: nat)
      in (65 \<le> n \<and> n \<le> 90) \<or> (192 \<le> n \<and> n \<le> 222 \<and> n \<noteq> 215))"

text \<open>
  \<open>String.prototype.toLowerCase\<close> on these code units: \<open>A..Z\<close> and the Latin-1
  capitals \<open>0xC0..0xDE\<close> (without the multiplication sign \<open>0xD7\<close>) move up by \<open>0x20\<close>,
  which is setting bit 5; every other unit is kept.
\<close>

fun toLowerCaseChar :: "char \<Rightarrow> char" where
  "toLowerCaseChar (Char b0 b1 b2 b3 b4 b5 b6 b7) =
     (if isUpperCaseChar (Char b0 b1 b2 b3 b4 b5 b6 b7)
      then Char b0 b1 b2 b3 b4 True b6 b7
      else Char b0 b1 b2 b3 b4 b5 b6 b7)"

definition toLowerCase :: "string \<Rightarrow> string" where
  "toLowerCase s = map toLowerCaseChar s"

text \<open>
  \<open>parseInt(string)\<close> with no radix argument, after ECMA-262: leading white space is
  skipped, one sign is read, a prefix \<open>0x\<close>/\<open>0X\<close> selects radix 16 (radix 10 otherwise),
  the longest run of digits of that radix is read, and anything after it is ignored.
  No digit at all gives \<open>NaN\<close>, which is \<open>None\<close> here. The result is compared with 13
  and 120 only, so the mathematical integer stands for the source's number.
\<close>

definition isStrWhiteSpaceChar :: "char \<Rightarrow> bool" where
  "isStrWhiteSpaceChar c = ((of_char c :: nat) \<in> set [9, 10, 11, 12, 13, 32, 160])"

definition digitValue :: "char \<Rightarrow> nat option" where
  "digitValue c =
     (let n = (of_char c :: nat)
      in if 48 \<le> n \<and> n \<le> 57 then Some (n - 48)
         else if 97 \<le> n \<and> n \<le> 122 then Some (n - 87)
         else if 65 \<le> n \<and> n \<le> 90 then Some (n - 55)
         else None)"

definition isRadixDigit :: "nat \<Rightarrow> char \<Rightarrow> bool" where
  "isRadixDigit R c = (case digitValue c of None \<Rightarrow> False | Some d \<Rightarrow> d < R)"

fun radixValue :: "nat \<Rightarrow> nat \<Rightarrow> string \<Rightarrow> nat" where
  "radixValue R acc [] = acc"
| "radixValue R acc (c # cs) =
     radixValue R (acc * R + (case digitValue c of None \<Rightarrow> 0 | Some d \<Rightarrow> d)) cs"

definition parseInt :: "string \<Rightarrow> int option" where
  "parseInt inputString =
     (let S = dropWhile isStrWhiteSpaceChar inputString;
          sign = (if S \<noteq> [] \<and> hd S = CHR ''-'' then - 1 else 1 :: int);
          S1 = (if S \<noteq> [] \<and> (hd S = CHR ''+'' \<or> hd S = CHR ''-'') then tl S else S);
          stripPrefix = (2 \<le> length S1 \<and> (take 2 S1 = ''0x'' \<or> take 2 S1 = ''0X''));
          R = (if stripPrefix then 16 else 10 :: nat);
          S2 = (if stripPrefix then drop 2 S1 else S1);
          Z = takeWhile (isRadixDigit R) S2
      in if Z = [] then None else Some (sign * int (radixValue R 0 Z)))"

text \<open>The source's \<open>x >= k\<close> and \<open>x <= k\<close> on a number that may be \<open>NaN\<close>: false on \<open>NaN\<close>.\<close>

definition num_ge :: "int option \<Rightarrow> int \<Rightarrow> bool" where
  "num_ge x k = (case x of None \<Rightarrow> False | Some n \<Rightarrow> k \<le> n)"

definition num_le :: "int option \<Rightarrow> int \<Rightarrow> bool" where
  "num_le x k = (case x of None \<Rightarrow> False | Some n \<Rightarrow> n \<le> k)"

section \<open>The signup sequencer (components/SignupFlow.tsx)\<close>

datatype AuthMode = Welcome | Login | Signup

datatype SignupStep =
  Email | Password | ConfirmPassword | Name | Gender | Age | Country | Username | Interests

record AuthData =
  email :: string
  password :: string
  confirmPassword :: string
  firstName :: string
  lastName :: string
  gender :: string
  age :: string
  country :: string
  username :: string
  interests :: "string list"

text \<open>The component's \<open>useState\<close> cells, as one record.\<close>

record SignupState =
  authMode :: AuthMode
  signupStep :: SignupStep
  showPassword :: bool
  showConfirmPassword :: bool
  usernameAvailable :: "bool option"
  checkingUsername :: bool
  isLoading :: bool
  authData :: AuthData

definition emptyAuthData :: AuthData where
  "emptyAuthData =
     \<lparr>email = [], password = [], confirmPassword = [], firstName = [], lastName = [],
      gender = [], age = [], country = [], username = [], interests = []\<rparr>"

definition initialState :: SignupState where
  "initialState =
     \<lparr>authMode = Welcome, signupStep = Email, showPassword = False,
      showConfirmPassword = False, usernameAvailable = None, checkingUsername = False,
      isLoading = False, authData = emptyAuthData\<rparr>"

definition canProceedToNext :: "SignupState \<Rightarrow> bool" where
  "canProceedToNext s =
     (let d = authData s
      in case signupStep s of
           Email \<Rightarrow> CHR ''@'' \<in> set (email d) \<and> 0 < length (email d)
         | Password \<Rightarrow> 8 \<le> length (password d)
         | ConfirmPassword \<Rightarrow>
             confirmPassword d = password d \<and> 0 < length (confirmPassword d)
         | Name \<Rightarrow> 0 < length (firstName d) \<and> 0 < length (lastName d)
         | Gender \<Rightarrow> 0 < length (gender d)
         | Age \<Rightarrow>
             0 < length (age d) \<and> num_ge (parseInt (age d)) 13
             \<and> num_le (parseInt (age d)) 120
         | Country \<Rightarrow> 0 < length (country d)
         | Username \<Rightarrow> 3 \<le> length (username d) \<and> usernameAvailable s = Some True
         | Interests \<Rightarrow> 0 < length (interests d))"

text \<open>
  \<open>steps\<close> is the array literal of \<open>goToNextStep\<close> and \<open>goToPreviousStep\<close>;
  \<open>indexOf\<close> is \<open>Array.prototype.indexOf\<close>, which answers \<open>-1\<close> for an absent element.
\<close>

definition steps :: "SignupStep list" where
  "steps = [Email, Password, ConfirmPassword, Name, Gender, Age, Country, Username, Interests]"

fun indexOf :: "'a list \<Rightarrow> 'a \<Rightarrow> int" where
  "indexOf [] x = - 1"
| "indexOf (y # ys) x =
     (if y = x then 0 else (let i = indexOf ys x in if i < 0 then - 1 else i + 1))"

text \<open>
  The external create-account call \<open>signUp\<close> of the auth context. Its argument is what
  the sequencer passes; its outcome is either a returned pair \<open>{ data, error }\<close> or a
  rejection (a thrown exception).
\<close>

record SignUpArgs =
  su_email :: string
  su_password :: string
  su_firstName :: string
  su_lastName :: string
  su_username :: string
  su_gender :: string
  su_age :: string
  su_country :: string
  su_interests :: "string list"

record AuthError =
  message :: string

datatype 'd SignUpOutcome = Returned "'d option" "AuthError option" | Thrown

text \<open>What a handler does to the outside world, in order.\<close>

datatype Effect = SignUpCall SignUpArgs | Alert string

definition resetSignup :: "SignupState \<Rightarrow> SignupState" where
  "resetSignup s =
     s\<lparr>signupStep := Email, usernameAvailable := None, checkingUsername := False,
       authData := emptyAuthData\<rparr>"

definition signUpArgsOf :: "AuthData \<Rightarrow> SignUpArgs" where
  "signUpArgsOf d =
     \<lparr>su_email = email d, su_password = password d, su_firstName = firstName d,
      su_lastName = lastName d, su_username = username d, su_gender = gender d,
      su_age = age d, su_country = country d, su_interests = interests d\<rparr>"

text \<open>
  \<open>goToNextStep\<close>. The argument \<open>outcome\<close> is what the awaited \<open>signUp\<close> call answers
  when the handler reaches it. In the success branch the source reads \<open>data.user\<close>,
  which throws on a missing \<open>data\<close> and lands in the \<open>catch\<close> block. The \<open>finally\<close>
  block clears \<open>isLoading\<close> on every path of the submit branch. The texts of the
  notifications are given in ASCII and without the decoration of the success message;
  \<open>console\<close> output is left out.
\<close>

definition goToNextStep :: "'d SignUpOutcome \<Rightarrow> SignupState \<Rightarrow> SignupState \<times> Effect list" where
  "goToNextStep outcome s =
     (let currentIndex = indexOf steps (signupStep s)
      in if currentIndex < int (length steps) - 1
         then (s\<lparr>signupStep := steps ! nat (currentIndex + 1)\<rparr>, [])
         else
           (let call = SignUpCall (signUpArgsOf (authData s))
            in case outcome of
                 Thrown \<Rightarrow>
                   (s\<lparr>isLoading := False\<rparr>,
                    [call, Alert ''An unexpected error occurred during signup.''])
               | Returned dat err \<Rightarrow>
                   (case err of
                      Some e \<Rightarrow>
                        (s\<lparr>isLoading := False\<rparr>,
                         [call, Alert (''Signup failed: '' @ message e)])
                    | None \<Rightarrow>
                        (case dat of
                           None \<Rightarrow>
                             (s\<lparr>isLoading := False\<rparr>,
                              [call, Alert ''An unexpected error occurred during signup.''])
                         | Some u \<Rightarrow>
                             ((resetSignup (s\<lparr>authMode := Welcome\<rparr>))\<lparr>isLoading := False\<rparr>,
                              [call, Alert ''Welcome! Your account has been created successfully.''])))))"

definition goToPreviousStep :: "SignupState \<Rightarrow> SignupState" where
  "goToPreviousStep s =
     (let currentIndex = indexOf steps (signupStep s)
      in if 0 < currentIndex
         then s\<lparr>signupStep := steps ! nat (currentIndex - 1)\<rparr>
         else s\<lparr>authMode := Welcome\<rparr>)"

text \<open>\<open>updateAuthData('interests', v)\<close>, the only field update the toggle makes.\<close>

definition handleInterestToggle :: "string \<Rightarrow> SignupState \<Rightarrow> SignupState" where
  "handleInterestToggle interestId s =
     (let currentInterests = interests (authData s)
      in if interestId \<in> set currentInterests
         then s\<lparr>authData := (authData s)\<lparr>interests := filter (\<lambda>i. i \<noteq> interestId) currentInterests\<rparr>\<rparr>
         else s\<lparr>authData := (authData s)\<lparr>interests := currentInterests @ [interestId]\<rparr>\<rparr>)"

text \<open>The create-account calls among the effects of a handler, in order.\<close>

fun signUpCalls :: "Effect list \<Rightarrow> SignUpArgs list" where
  "signUpCalls [] = []"
| "signUpCalls (SignUpCall a # es) = a # signUpCalls es"
| "signUpCalls (Alert m # es) = signUpCalls es"

section \<open>The hosted database, as the data-access wrappers use it\<close>

text \<open>
  The wrappers of \<open>lib/database.ts\<close> talk to the hosted service through the \<open>supabase\<close>
  client. The model keeps the part of that service the wrappers under study read or
  write: the signed-in user, the rows of \<open>profiles\<close> and \<open>follows\<close>, a \<open>fault\<close> that
  makes every table request answer with the given error (a network or server failure),
  and the list of table requests made so far.

  Row-level security: the \<open>profiles\<close> migration enables it and grants \<open>SELECT\<close> to
  the role \<open>authenticated\<close> only, on the caller's own row and on every row that is not
  private; a caller who is not signed in reads no row. The three \<open>follows\<close> requests
  below always act on rows whose \<open>follower_id\<close> is the caller, which the policies of the
  \<open>follows\<close> migration admit, so these policies never change their outcome.
\<close>

record PostgrestError =
  code :: string
  details :: string

record 'r Response =
  data :: "'r option"
  error :: "PostgrestError option"

record User =
  user_id :: string

record ProfileRow =
  profile_id :: string
  profile_username :: string
  is_private :: bool

record FollowRow =
  follower_id :: string
  following_id :: string

datatype Request =
    SelectProfileUsername string
  | InsertFollow string string
  | DeleteFollow string string
  | SelectFollow string string

record Supabase =
  auth_user :: "User option"
  profiles :: "ProfileRow list"
  follows :: "FollowRow list"
  fault :: "PostgrestError option"
  requests :: "Request list"

definition logged :: "Request \<Rightarrow> Supabase \<Rightarrow> Supabase" where
  "logged q b = b\<lparr>requests := requests b @ [q]\<rparr>"

text \<open>
  \<open>.single()\<close>: exactly one row is the data; no row is the error with code
  \<open>PGRST116\<close>, as the comments of the source say, and the service answers the same code
  for more than one row.
\<close>

definition single :: "'r list \<Rightarrow> 'r Response" where
  "single rows =
     (case rows of
        [r] \<Rightarrow> \<lparr>data = Some r, error = None\<rparr>
      | _ \<Rightarrow> \<lparr>data = None,
              error = Some \<lparr>code = ''PGRST116'',
                             details = ''The result contains 0 or multiple rows''\<rparr>\<rparr>)"

text \<open>
  The \<open>SELECT\<close> policies of the \<open>profiles\<close> migration, all of them \<open>TO authenticated\<close>:
  \<open>USING (auth.uid() = id)\<close> and \<open>USING (NOT is_private)\<close>.
\<close>

definition readable :: "User option \<Rightarrow> ProfileRow \<Rightarrow> bool" where
  "readable caller r =
     (case caller of
        None \<Rightarrow> False
      | Some u \<Rightarrow> user_id u = profile_id r \<or> \<not> is_private r)"

text \<open>
  \<open>from('profiles').select('username').eq('username', u).single()\<close>, over the rows the
  caller may read.
\<close>

definition select_profile_by_username :: "string \<Rightarrow> Supabase \<Rightarrow> ProfileRow Response \<times> Supabase" where
  "select_profile_by_username u b =
     (case fault b of
        Some e \<Rightarrow> (\<lparr>data = None, error = Some e\<rparr>, logged (SelectProfileUsername u) b)
      | None \<Rightarrow>
          (single (filter (\<lambda>r. profile_username r = u) (filter (readable (auth_user b)) (profiles b))),
           logged (SelectProfileUsername u) b))"

text \<open>
  \<open>from('follows').insert({follower_id, following_id}).select().single()\<close> against the
  table of the \<open>follows\<close> migration: \<open>CHECK (follower_id != following_id)\<close> (SQLSTATE
  23514), \<open>UNIQUE(follower_id, following_id)\<close> (23505) and the two foreign keys
  \<open>REFERENCES profiles(id)\<close> (23503). A rejected insert leaves the table as it was.
\<close>

definition insert_follow :: "string \<Rightarrow> string \<Rightarrow> Supabase \<Rightarrow> FollowRow Response \<times> Supabase" where
  "insert_follow f t b =
     (let b' = logged (InsertFollow f t) b;
          row = \<lparr>follower_id = f, following_id = t\<rparr>
      in case fault b of
           Some e \<Rightarrow> (\<lparr>data = None, error = Some e\<rparr>, b')
         | None \<Rightarrow>
             if f = t
             then (\<lparr>data = None,
                    error = Some \<lparr>code = ''23514'', details = ''check constraint''\<rparr>\<rparr>, b')
             else if row \<in> set (follows b)
             then (\<lparr>data = None,
                    error = Some \<lparr>code = ''23505'', details = ''unique constraint''\<rparr>\<rparr>, b')
             else if f \<notin> set (map profile_id (profiles b)) \<or> t \<notin> set (map profile_id (profiles b))
             then (\<lparr>data = None,
                    error = Some \<lparr>code = ''23503'', details = ''foreign key constraint''\<rparr>\<rparr>, b')
             else (single [row], b'\<lparr>follows := follows b @ [row]\<rparr>))"

text \<open>\<open>from('follows').delete().eq('follower_id', f).eq('following_id', t)\<close>\<close>

definition delete_follow :: "string \<Rightarrow> string \<Rightarrow> Supabase \<Rightarrow> PostgrestError option \<times> Supabase" where
  "delete_follow f t b =
     (let b' = logged (DeleteFollow f t) b
      in case fault b of
           Some e \<Rightarrow> (Some e, b')
         | None \<Rightarrow>
             (None,
              b'\<lparr>follows := filter (\<lambda>r. \<not> (follower_id r = f \<and> following_id r = t)) (follows b)\<rparr>))"

text \<open>\<open>from('follows').select('id').eq('follower_id', f).eq('following_id', t).single()\<close>\<close>

definition select_follow :: "string \<Rightarrow> string \<Rightarrow> Supabase \<Rightarrow> FollowRow Response \<times> Supabase" where
  "select_follow f t b =
     (case fault b of
        Some e \<Rightarrow> (\<lparr>data = None, error = Some e\<rparr>, logged (SelectFollow f t) b)
      | None \<Rightarrow>
          (single (filter (\<lambda>r. follower_id r = f \<and> following_id r = t) (follows b)),
           logged (SelectFollow f t) b))"




section \<open>The data-access wrappers (lib/database.ts)\<close>

text \<open>
  An \<open>async\<close> wrapper either throws (\<open>Inl\<close>) or returns its result together with the
  service as the call left it.
\<close>

datatype Exn = Error string

record AvailabilityResult =
  available :: "bool option"
  availability_error :: "PostgrestError option"

record IsFollowingResult =
  isFollowing_flag :: bool
  isFollowing_error :: "PostgrestError option"

text \<open>The source's test \<open>error && error.code === 'PGRST116'\<close>.\<close>

definition isNoRows :: "PostgrestError option \<Rightarrow> bool" where
  "isNoRows err = (case err of None \<Rightarrow> False | Some e \<Rightarrow> code e = ''PGRST116'')"

definition checkUsernameAvailability :: "string \<Rightarrow> Supabase \<Rightarrow> Exn + (AvailabilityResult \<times> Supabase)" where
  "checkUsernameAvailability name b =
     (let (r, b') = select_profile_by_username (toLowerCase name) b
      in if isNoRows (error r)
         then Inr (\<lparr>available = Some True, availability_error = None\<rparr>, b')
         else if data r \<noteq> None
         then Inr (\<lparr>available = Some False, availability_error = None\<rparr>, b')
         else Inr (\<lparr>available = None, availability_error = error r\<rparr>, b'))"

definition followUser :: "string \<Rightarrow> Supabase \<Rightarrow> Exn + (FollowRow Response \<times> Supabase)" where
  "followUser followingId b =
     (case auth_user b of
        None \<Rightarrow> Inl (Error ''Not authenticated'')
      | Some user \<Rightarrow> Inr (insert_follow (user_id user) followingId b))"

definition unfollowUser :: "string \<Rightarrow> Supabase \<Rightarrow> Exn + (PostgrestError option \<times> Supabase)" where
  "unfollowUser followingId b =
     (case auth_user b of
        None \<Rightarrow> Inl (Error ''Not authenticated'')
      | Some user \<Rightarrow> Inr (delete_follow (user_id user) followingId b))"

definition isFollowing :: "string \<Rightarrow> Supabase \<Rightarrow> Exn + (IsFollowingResult \<times> Supabase)" where
  "isFollowing followingId b =
     (case auth_user b of
        None \<Rightarrow> Inr (\<lparr>isFollowing_flag = False, isFollowing_error = None\<rparr>, b)
      | Some user \<Rightarrow>
          (let (r, b') = select_follow (user_id user) followingId b
           in Inr (\<lparr>isFollowing_flag = (data r \<noteq> None),
                    isFollowing_error = (if error r \<noteq> None \<and> \<not> isNoRows (error r)
                                         then error r else None)\<rparr>, b')))"

section \<open>The wizard as an event loop (components/SignupFlow.tsx)\<close>

text \<open>
  The wizard runs in a single-threaded event loop: the user presses a button or edits
  an input, time passes, or the answer of a lookup arrives. A handler runs to its end
  (or to its \<open>await\<close>) before the next event is taken.
\<close>

datatype Field =
    EmailField | PasswordField | ConfirmPasswordField | FirstNameField | LastNameField
  | GenderField | AgeField | CountryField | UsernameField

text \<open>\<open>updateAuthData(field, value)\<close> for the string fields.\<close>

definition updateAuthData :: "Field \<Rightarrow> string \<Rightarrow> SignupState \<Rightarrow> SignupState" where
  "updateAuthData field v s =
     s\<lparr>authData :=
         (case field of
            EmailField \<Rightarrow> (authData s)\<lparr>email := v\<rparr>
          | PasswordField \<Rightarrow> (authData s)\<lparr>password := v\<rparr>
          | ConfirmPasswordField \<Rightarrow> (authData s)\<lparr>confirmPassword := v\<rparr>
          | FirstNameField \<Rightarrow> (authData s)\<lparr>firstName := v\<rparr>
          | LastNameField \<Rightarrow> (authData s)\<lparr>lastName := v\<rparr>
          | GenderField \<Rightarrow> (authData s)\<lparr>gender := v\<rparr>
          | AgeField \<Rightarrow> (authData s)\<lparr>age := v\<rparr>
          | CountryField \<Rightarrow> (authData s)\<lparr>country := v\<rparr>
          | UsernameField \<Rightarrow> (authData s)\<lparr>username := v\<rparr>)\<rparr>"

text \<open>
  The inputs on the page: the login form has the email and the password; a signup
  page has the inputs of its step only; the welcome page has none.
\<close>

definition stepOfField :: "Field \<Rightarrow> SignupStep" where
  "stepOfField field =
     (case field of
        EmailField \<Rightarrow> Email
      | PasswordField \<Rightarrow> Password
      | ConfirmPasswordField \<Rightarrow> ConfirmPassword
      | FirstNameField \<Rightarrow> Name
      | LastNameField \<Rightarrow> Name
      | GenderField \<Rightarrow> Gender
      | AgeField \<Rightarrow> Age
      | CountryField \<Rightarrow> Country
      | UsernameField \<Rightarrow> Username)"

definition inputShown :: "Field \<Rightarrow> SignupState \<Rightarrow> bool" where
  "inputShown field s =
     (case authMode s of
        Welcome \<Rightarrow> False
      | Login \<Rightarrow> field = EmailField \<or> field = PasswordField
      | Signup \<Rightarrow> signupStep s = stepOfField field)"

text \<open>
  What the user can do. \<open>PressContinue\<close> is the button at the bottom of the page (in
  login mode it submits the login form, as the form's own button does); \<open>PressBack\<close>
  is the button of the header.
\<close>

datatype Action =
    PressCreateAccount
  | PressSignIn
  | Input Field string
  | ToggleInterest string
  | PressContinue
  | PressBack

text \<open>The calls to the auth context that a handler starts and then awaits.\<close>

datatype Call = SignUp SignUpArgs | SignIn string string

text \<open>
  \<open>goToNextStep\<close> up to its \<open>await\<close>, and the rest of it, run on the cells as they are
  when the \<open>signUp\<close> call settles. The rest uses the setters only, so it does not
  depend on what the handler saw when it started.
\<close>

definition goToNextStep_begin :: "SignupState \<Rightarrow> SignupState \<times> Call option" where
  "goToNextStep_begin s =
     (let currentIndex = indexOf steps (signupStep s)
      in if currentIndex < int (length steps) - 1
         then (s\<lparr>signupStep := steps ! nat (currentIndex + 1)\<rparr>, None)
         else (s\<lparr>isLoading := True\<rparr>, Some (SignUp (signUpArgsOf (authData s)))))"

definition goToNextStep_settle :: "'d SignUpOutcome \<Rightarrow> SignupState \<Rightarrow> SignupState" where
  "goToNextStep_settle outcome s =
     (case outcome of
        Thrown \<Rightarrow> s\<lparr>isLoading := False\<rparr>
      | Returned dat err \<Rightarrow>
          (case err of
             Some e \<Rightarrow> s\<lparr>isLoading := False\<rparr>
           | None \<Rightarrow>
               (case dat of
                  None \<Rightarrow> s\<lparr>isLoading := False\<rparr>
                | Some u \<Rightarrow> (resetSignup (s\<lparr>authMode := Welcome\<rparr>))\<lparr>isLoading := False\<rparr>)))"

text \<open>
  \<open>handleLogin\<close> up to its \<open>await\<close>, and the rest of it: whatever \<open>signIn\<close> answers,
  the cells change in \<open>isLoading\<close> only.
\<close>

definition handleLogin_begin :: "SignupState \<Rightarrow> SignupState \<times> Call option" where
  "handleLogin_begin s =
     (if email (authData s) = [] \<or> password (authData s) = [] then (s, None)
      else (s\<lparr>isLoading := True\<rparr>,
            Some (SignIn (email (authData s)) (password (authData s)))))"

definition handleLogin_settle :: "SignupState \<Rightarrow> SignupState" where
  "handleLogin_settle s = s\<lparr>isLoading := False\<rparr>"

text \<open>
  The handlers as wired in the page, up to their \<open>await\<close>, with the call they start.
  A control that is not on the page, or that is disabled, cannot be used: the bottom
  button is disabled while \<open>isLoading\<close> is set and, on a signup page, while
  \<open>canProceedToNext\<close> is false.
\<close>

definition handle :: "Action \<Rightarrow> SignupState \<Rightarrow> SignupState \<times> Call option" where
  "handle a s =
     (case a of
        PressCreateAccount \<Rightarrow>
          (if authMode s = Welcome
           then resetSignup (s\<lparr>authMode := Signup, signupStep := Email\<rparr>) else s, None)
      | PressSignIn \<Rightarrow> (if authMode s = Welcome then s\<lparr>authMode := Login\<rparr> else s, None)
      | Input field v \<Rightarrow> (if inputShown field s then updateAuthData field v s else s, None)
      | ToggleInterest i \<Rightarrow>
          (if authMode s = Signup \<and> signupStep s = Interests
           then handleInterestToggle i s else s, None)
      | PressContinue \<Rightarrow>
          (case authMode s of
             Welcome \<Rightarrow> (s, None)
           | Login \<Rightarrow> if isLoading s then (s, None) else handleLogin_begin s
           | Signup \<Rightarrow>
               if canProceedToNext s \<and> \<not> isLoading s then goToNextStep_begin s else (s, None))
      | PressBack \<Rightarrow>
          (case authMode s of
             Welcome \<Rightarrow> s
           | Login \<Rightarrow> s\<lparr>authMode := Welcome\<rparr>
           | Signup \<Rightarrow> goToPreviousStep s, None))"

text \<open>
  Besides the \<open>useState\<close> cells, the model keeps the clock, the one pending debounce
  timer (its due time and the username its closure captured), and a chronological
  history of two kinds of happenings: a render in which the step or the username
  differs from the render before (with the new step and username), and a lookup sent
  to the service (with the name asked for). A lookup is identified by its position
  among the lookups sent; \<open>settled\<close> lists the lookups already answered. The two
  counters say how many \<open>signUp\<close> and \<open>signIn\<close> calls are awaited.
\<close>

datatype Obs = Rendered nat SignupStep string | Issued nat string

record Wizard =
  ui :: SignupState
  clock :: nat
  debounceTimeout :: "(nat \<times> string) option"
  history :: "Obs list"
  settled :: "nat list"
  signUpsAwaited :: nat
  signInsAwaited :: nat

fun lookups :: "Obs list \<Rightarrow> (nat \<times> string) list" where
  "lookups [] = []"
| "lookups (Rendered c st v # h) = lookups h"
| "lookups (Issued t v # h) = (t, v) # lookups h"

text \<open>
  What the awaited lookup of \<open>checkUsernameAvailability\<close> does: it answers with a
  response, or it rejects (the \<open>catch\<close> block). The revision of the component under
  \<open>src/src/components\<close> has a stand-in for the lookup: a 500 unit timer followed by a
  test against the fixed names \<open>admin\<close>, \<open>user\<close> and \<open>test\<close>. That is the special case
  of an answer that arrives exactly 500 units after its lookup was sent.
\<close>

datatype LookupOutcome = Answered "ProfileRow Response" | Rejected

datatype Event =
    User Action
  | Elapse nat
  | Reply nat LookupOutcome
  | SignUpSettles "unit SignUpOutcome"
  | SignInSettles

text \<open>
  The effect with dependencies \<open>[authData.username, signupStep]\<close>: the cleanup of the
  previous run clears its timer, then a new timer is set when the step is the
  username step and the username is not empty.
\<close>

definition usernameEffect :: "Wizard \<Rightarrow> Wizard" where
  "usernameEffect w =
     (if signupStep (ui w) = Username \<and> username (authData (ui w)) \<noteq> []
      then w\<lparr>debounceTimeout := Some (clock w + 500, username (authData (ui w)))\<rparr>
      else w\<lparr>debounceTimeout := None\<rparr>)"

text \<open>
  The render after a handler has left the cells as \<open>s'\<close>: the effect runs again only
  when the username or the step differs from the one of the render before.
\<close>

definition rendered :: "SignupState \<Rightarrow> Wizard \<Rightarrow> Wizard" where
  "rendered s' w =
     (if username (authData s') = username (authData (ui w)) \<and> signupStep s' = signupStep (ui w)
      then w\<lparr>ui := s'\<rparr>
      else usernameEffect
             (w\<lparr>ui := s',
                history := history w @ [Rendered (clock w) (signupStep s') (username (authData s'))]\<rparr>))"

text \<open>
  \<open>checkUsernameAvailability\<close> of the component, up to its \<open>await\<close>: the timer's
  callback runs it at time \<open>t\<close> with the captured username.
\<close>

definition checkUsernameAvailability_begin :: "nat \<Rightarrow> string \<Rightarrow> Wizard \<Rightarrow> Wizard" where
  "checkUsernameAvailability_begin t name w =
     (if length name < 3
      then w\<lparr>ui := (ui w)\<lparr>usernameAvailable := None\<rparr>\<rparr>
      else w\<lparr>ui := (ui w)\<lparr>checkingUsername := True\<rparr>,
             history := history w @ [Issued t name]\<rparr>)"

text \<open>The rest of \<open>checkUsernameAvailability\<close>, run when the lookup settles.\<close>

definition checkUsernameAvailability_resume :: "LookupOutcome \<Rightarrow> Wizard \<Rightarrow> Wizard" where
  "checkUsernameAvailability_resume outcome w =
     (case outcome of
        Rejected \<Rightarrow>
          w\<lparr>ui := (ui w)\<lparr>usernameAvailable := None, checkingUsername := False\<rparr>\<rparr>
      | Answered r \<Rightarrow>
          if isNoRows (error r)
          then w\<lparr>ui := (ui w)\<lparr>usernameAvailable := Some True, checkingUsername := False\<rparr>\<rparr>
          else if data r \<noteq> None
          then w\<lparr>ui := (ui w)\<lparr>usernameAvailable := Some False, checkingUsername := False\<rparr>\<rparr>
          else w\<lparr>ui := (ui w)\<lparr>usernameAvailable := None, checkingUsername := False\<rparr>\<rparr>)"

text \<open>Time passing by \<open>d\<close> units: a timer that falls due in between fires at its due time.\<close>

definition elapse :: "nat \<Rightarrow> Wizard \<Rightarrow> Wizard" where
  "elapse d w =
     (case debounceTimeout w of
        None \<Rightarrow> w\<lparr>clock := clock w + d\<rparr>
      | Some (due, name) \<Rightarrow>
          if due \<le> clock w + d
          then (checkUsernameAvailability_begin due name (w\<lparr>debounceTimeout := None\<rparr>))
                 \<lparr>clock := clock w + d\<rparr>
          else w\<lparr>clock := clock w + d\<rparr>)"

text \<open>The answer to lookup number \<open>k\<close>; an answer to no open lookup does nothing.\<close>

definition reply :: "nat \<Rightarrow> LookupOutcome \<Rightarrow> Wizard \<Rightarrow> Wizard" where
  "reply k outcome w =
     (if k < length (lookups (history w)) \<and> k \<notin> set (settled w)
      then checkUsernameAvailability_resume outcome (w\<lparr>settled := settled w @ [k]\<rparr>)
      else w)"

text \<open>A call that a handler started is awaited from then on.\<close>

definition awaited :: "Call option \<Rightarrow> Wizard \<Rightarrow> Wizard" where
  "awaited call w =
     (case call of
        None \<Rightarrow> w
      | Some (SignUp args) \<Rightarrow> w\<lparr>signUpsAwaited := Suc (signUpsAwaited w)\<rparr>
      | Some (SignIn e p) \<Rightarrow> w\<lparr>signInsAwaited := Suc (signInsAwaited w)\<rparr>)"

text \<open>
  One turn of the event loop. A call can settle only while it is awaited; the render
  follows every change of the cells.
\<close>

fun step :: "Wizard \<Rightarrow> Event \<Rightarrow> Wizard" where
  "step w (User a) = rendered (fst (handle a (ui w))) (awaited (snd (handle a (ui w))) w)"
| "step w (Elapse d) = elapse d w"
| "step w (Reply k outcome) = reply k outcome w"
| "step w (SignUpSettles outcome) =
     (if 0 < signUpsAwaited w
      then rendered (goToNextStep_settle outcome (ui w))
             (w\<lparr>signUpsAwaited := signUpsAwaited w - 1\<rparr>)
      else w)"
| "step w SignInSettles =
     (if 0 < signInsAwaited w
      then rendered (handleLogin_settle (ui w)) (w\<lparr>signInsAwaited := signInsAwaited w - 1\<rparr>)
      else w)"

declare step.simps [simp del]

definition run :: "Event list \<Rightarrow> Wizard \<Rightarrow> Wizard" where
  "run evs w = foldl step w evs"

text \<open>
  The wizard after its first render, at time 0: the welcome page, no timer (the effect
  has run on the email step, where it sets none), nothing sent.
\<close>

definition mounted :: Wizard where
  "mounted =
     \<lparr>ui = initialState, clock = 0, debounceTimeout = None, history = [], settled = [],
      signUpsAwaited = 0, signInsAwaited = 0\<rparr>"

text \<open>The two answers of the service used in the scenarios below.\<close>

definition noRows :: LookupOutcome where
  "noRows = Answered (single [])"

definition oneRow :: "string \<Rightarrow> LookupOutcome" where
  "oneRow name = Answered (single [\<lparr>profile_id = ''u1'', profile_username = name, is_private = False\<rparr>])"

text \<open>
  The way to the username step: the user opens the signup pages and fills in each
  step. No time passes on the way.
\<close>

definition toUsernameStep :: "Event list" where
  "toUsernameStep =
     [User PressCreateAccount,
      User (Input EmailField ''a@b.com''), User PressContinue,
      User (Input PasswordField ''password123''), User PressContinue,
      User (Input ConfirmPasswordField ''password123''), User PressContinue,
      User (Input FirstNameField ''Jo''), User (Input LastNameField ''Doe''), User PressContinue,
      User (Input GenderField ''female''), User PressContinue,
      User (Input AgeField ''25''), User PressContinue,
      User (Input CountryField ''Canada''), User PressContinue]"

text \<open>
  Scenario A: \<open>bob\<close> is typed and its lookup is sent at 500; at 600 the field changes
  to \<open>bobby\<close>; at 1000 the answer for \<open>bob\<close> (no such row) arrives, while the timer for
  \<open>bobby\<close> is still pending. This is also a run of the revision with the stand-in
  lookup: the answer comes 500 units after the lookup was sent, and \<open>bob\<close> is none of
  the fixed names.
\<close>

definition scenarioA :: "Event list" where
  "scenarioA =
     toUsernameStep @
     [User (Input UsernameField ''bob''), Elapse 500, Elapse 100,
      User (Input UsernameField ''bobby''), Elapse 400, Reply 0 noRows]"

text \<open>
  Scenario B: as before, but both lookups are in flight; the answer for \<open>bobby\<close> (the
  name is taken) arrives first, 40 units after its lookup, and the answer for \<open>bob\<close>
  (no such row) arrives last.
\<close>

definition scenarioB :: "Event list" where
  "scenarioB =
     toUsernameStep @
     [User (Input UsernameField ''bob''), Elapse 500, Elapse 100,
      User (Input UsernameField ''bobby''), Elapse 500, Elapse 40,
      Reply 1 (oneRow ''bobby''), Elapse 40, Reply 0 noRows]"

text \<open>Scenario C: three changes 100 units apart, then 500 quiet units.\<close>

definition scenarioC :: "Event list" where
  "scenarioC =
     toUsernameStep @
     [User (Input UsernameField ''b''), Elapse 100, User (Input UsernameField ''bo''),
      Elapse 100, User (Input UsernameField ''bob''), Elapse 500]"

text \<open>Scenario D: one change, to a name of two characters, then 1000 quiet units.\<close>

definition scenarioD :: "Event list" where
  "scenarioD = toUsernameStep @ [User (Input UsernameField ''bo''), Elapse 1000]"

text \<open>
  Scenario E: \<open>bob\<close> is typed, looked up and found free; the user continues to the
  interests, comes back, and waits.
\<close>

definition scenarioE :: "Event list" where
  "scenarioE =
     toUsernameStep @
     [User (Input UsernameField ''bob''), Elapse 500, Reply 0 noRows,
      User PressContinue, User PressBack, Elapse 500]"

text \<open>
  Reading the history backwards: every lookup sent is directly preceded by the render
  that brought the wizard to the username step with that name, or changed the name to
  it there, 500 units earlier, and the name has at least three characters.
\<close>

fun settled_rev :: "Obs list \<Rightarrow> bool" where
  "settled_rev [] = True"
| "settled_rev (Rendered c st v # older) = settled_rev older"
| "settled_rev (Issued t v # Rendered c st u # older) =
     (t = c + 500 \<and> st = Username \<and> u = v \<and> 3 \<le> length v \<and> settled_rev older)"
| "settled_rev [Issued t v] = False"
| "settled_rev (Issued t v # Issued t' v' # older) = False"

definition timer_matches :: "Wizard \<Rightarrow> bool" where
  "timer_matches w =
     (case debounceTimeout w of
        None \<Rightarrow> True
      | Some (due, name) \<Rightarrow>
          (case rev (history w) of
             Rendered c st v # older \<Rightarrow> due = c + 500 \<and> st = Username \<and> name = v
           | _ \<Rightarrow> False))"

definition debounce_inv :: "Wizard \<Rightarrow> bool" where
  "debounce_inv w = (settled_rev (rev (history w)) \<and> timer_matches w)"

section \<open>Properties of the sequencer\<close>

lemma parseInt_empty: "parseInt [] = None"
  by (simp add: parseInt_def)

lemma steps_complete: "x \<in> set steps"
  by (cases x) (simp_all add: steps_def)

lemma indexOf_steps:
  "indexOf steps Email = 0" "indexOf steps Password = 1" "indexOf steps ConfirmPassword = 2"
  "indexOf steps Name = 3" "indexOf steps Gender = 4" "indexOf steps Age = 5"
  "indexOf steps Country = 6" "indexOf steps Username = 7" "indexOf steps Interests = 8"
  by (simp_all add: steps_def)

lemma parseInt_samples:
  "parseInt ''13'' = Some 13" "parseInt ''120'' = Some 120" "parseInt ''12'' = Some 12"
  "parseInt ''121'' = Some 121" "parseInt ''abc'' = None" "parseInt ''25'' = Some 25"
  by (simp_all add: parseInt_def isStrWhiteSpaceChar_def isRadixDigit_def digitValue_def)

text \<open>
  \<open>parseInt\<close> reads a prefix: trailing text after the digits is ignored, so such a string
  parses to the integer its leading digits denote.
\<close>

lemma parseInt_prefix_samples:
  "parseInt ''13abc'' = Some 13" "parseInt ''13.9'' = Some 13" "parseInt '' 0x10'' = Some 16"
  by (simp_all add: parseInt_def isStrWhiteSpaceChar_def isRadixDigit_def digitValue_def)

lemma canProceedToNext_Age_iff:
  "signupStep s = Age \<Longrightarrow>
   canProceedToNext s \<longleftrightarrow>
     (\<exists>n. parseInt (age (authData s)) = Some n \<and> 13 \<le> n \<and> n \<le> 120)"
  by (auto simp: canProceedToNext_def Let_def num_ge_def num_le_def parseInt_empty
           split: option.splits)

text \<open>
  C1. On the age step, \<open>canProceedToNext\<close> is true exactly when \<open>parseInt\<close> of the age
  field is an integer from 13 to 120. The strings 13 and 120 are accepted, 12 and 121
  are rejected, and strings for which \<open>parseInt\<close> finds no integer (the empty string,
  \<open>abc\<close>) are rejected.
\<close>

theorem canProceedToNext_age:
  assumes "signupStep s = Age"
  shows "(canProceedToNext s \<longleftrightarrow>
            (\<exists>n. parseInt (age (authData s)) = Some n \<and> 13 \<le> n \<and> n \<le> 120))
       \<and> canProceedToNext (s\<lparr>authData := (authData s)\<lparr>age := ''13''\<rparr>\<rparr>)
       \<and> canProceedToNext (s\<lparr>authData := (authData s)\<lparr>age := ''120''\<rparr>\<rparr>)
       \<and> \<not> canProceedToNext (s\<lparr>authData := (authData s)\<lparr>age := ''12''\<rparr>\<rparr>)
       \<and> \<not> canProceedToNext (s\<lparr>authData := (authData s)\<lparr>age := ''121''\<rparr>\<rparr>)
       \<and> \<not> canProceedToNext (s\<lparr>authData := (authData s)\<lparr>age := ''abc''\<rparr>\<rparr>)
       \<and> \<not> canProceedToNext (s\<lparr>authData := (authData s)\<lparr>age := []\<rparr>\<rparr>)"
proof -
  have iff: "canProceedToNext s \<longleftrightarrow>
               (\<exists>n. parseInt (age (authData s)) = Some n \<and> 13 \<le> n \<and> n \<le> 120)"
    using assms by (rule canProceedToNext_Age_iff)
  have at: "canProceedToNext (s\<lparr>authData := (authData s)\<lparr>age := a\<rparr>\<rparr>) \<longleftrightarrow>
              (\<exists>n. parseInt a = Some n \<and> 13 \<le> n \<and> n \<le> 120)" for a
    using canProceedToNext_Age_iff [of "s\<lparr>authData := (authData s)\<lparr>age := a\<rparr>\<rparr>"] assms
    by simp
  show ?thesis
    using iff by (simp add: at parseInt_samples parseInt_empty)
qed

theorem canProceedToNext_age_witness:
  "signupStep (initialState\<lparr>signupStep := Age, authData := emptyAuthData\<lparr>age := ''25''\<rparr>\<rparr>) = Age
   \<and> canProceedToNext (initialState\<lparr>signupStep := Age, authData := emptyAuthData\<lparr>age := ''25''\<rparr>\<rparr>)"
proof -
  have h: "signupStep (initialState\<lparr>signupStep := Age, authData := emptyAuthData\<lparr>age := ''25''\<rparr>\<rparr>) = Age"
    by simp
  show ?thesis
    using h canProceedToNext_age [OF h] by (simp add: parseInt_samples)
qed

text \<open>
  C3. The step is always one of the nine distinct entries of the fixed order. \<open>goToNextStep\<close>
  moves from a step other than the last to the next entry and leaves the mode alone;
  on the last step it either resets to Welcome (with the first step selected), when
  account creation succeeds, or leaves step and mode as they are. \<open>goToPreviousStep\<close>
  moves from a step other than the first to the previous entry and leaves the mode
  alone; on the first step it switches to Welcome and selects no other step.
\<close>

theorem step_transitions_adjacent:
  "signupStep s \<in> set steps \<and> distinct steps \<and> length steps = 9
   \<and> (signupStep s \<noteq> Interests \<longrightarrow>
        indexOf steps (signupStep (fst (goToNextStep outcome s))) = indexOf steps (signupStep s) + 1
        \<and> authMode (fst (goToNextStep outcome s)) = authMode s)
   \<and> (signupStep s = Interests \<longrightarrow>
        (if \<exists>u. outcome = Returned (Some u) None
         then authMode (fst (goToNextStep outcome s)) = Welcome
              \<and> signupStep (fst (goToNextStep outcome s)) = Email
         else authMode (fst (goToNextStep outcome s)) = authMode s
              \<and> signupStep (fst (goToNextStep outcome s)) = Interests))
   \<and> (signupStep s \<noteq> Email \<longrightarrow>
        indexOf steps (signupStep (goToPreviousStep s)) = indexOf steps (signupStep s) - 1
        \<and> authMode (goToPreviousStep s) = authMode s)
   \<and> (signupStep s = Email \<longrightarrow>
        authMode (goToPreviousStep s) = Welcome \<and> signupStep (goToPreviousStep s) = Email)"
proof -
  have next_mid: "signupStep s \<noteq> Interests \<Longrightarrow>
        indexOf steps (signupStep (fst (goToNextStep outcome s))) = indexOf steps (signupStep s) + 1
        \<and> authMode (fst (goToNextStep outcome s)) = authMode s"
    by (cases "signupStep s") (simp_all add: goToNextStep_def indexOf_steps, simp_all add: steps_def)
  have next_last: "signupStep s = Interests \<Longrightarrow>
        (if \<exists>u. outcome = Returned (Some u) None
         then authMode (fst (goToNextStep outcome s)) = Welcome
              \<and> signupStep (fst (goToNextStep outcome s)) = Email
         else authMode (fst (goToNextStep outcome s)) = authMode s
              \<and> signupStep (fst (goToNextStep outcome s)) = Interests)"
    by (auto simp: goToNextStep_def indexOf_steps steps_def resetSignup_def Let_def
             split: SignUpOutcome.splits option.splits)
  have prev_mid: "signupStep s \<noteq> Email \<Longrightarrow>
        indexOf steps (signupStep (goToPreviousStep s)) = indexOf steps (signupStep s) - 1
        \<and> authMode (goToPreviousStep s) = authMode s"
    by (cases "signupStep s") (simp_all add: goToPreviousStep_def indexOf_steps, simp_all add: steps_def)
  have prev_first: "signupStep s = Email \<Longrightarrow>
        authMode (goToPreviousStep s) = Welcome \<and> signupStep (goToPreviousStep s) = Email"
    by (simp add: goToPreviousStep_def indexOf_steps)
  have nine: "distinct steps \<and> length steps = 9"
    by (simp add: steps_def)
  show ?thesis
    using steps_complete nine next_mid next_last prev_mid prev_first by blast
qed

theorem step_transitions_adjacent_witness:
  "signupStep (fst (goToNextStep (Thrown :: unit SignUpOutcome) (initialState\<lparr>signupStep := Age\<rparr>))) = Country
   \<and> signupStep (goToPreviousStep (initialState\<lparr>signupStep := Age\<rparr>)) = Gender
   \<and> authMode (fst (goToNextStep (Returned (Some ()) None) (initialState\<lparr>authMode := Signup, signupStep := Interests\<rparr>))) = Welcome
   \<and> signupStep (fst (goToNextStep (Thrown :: unit SignUpOutcome) (initialState\<lparr>authMode := Signup, signupStep := Interests\<rparr>))) = Interests
   \<and> authMode (goToPreviousStep (initialState\<lparr>authMode := Signup, signupStep := Email\<rparr>)) = Welcome"
proof -
  have a: "indexOf steps Gender = 4 \<and> indexOf steps Country = 6"
    by (simp add: indexOf_steps)
  have inj: "indexOf steps x = 6 \<Longrightarrow> x = Country" "indexOf steps x = 4 \<Longrightarrow> x = Gender" for x
    by (cases x; simp add: indexOf_steps)+
  show ?thesis
    using step_transitions_adjacent [of "initialState\<lparr>signupStep := Age\<rparr>" "Thrown :: unit SignUpOutcome"]
          step_transitions_adjacent [of "initialState\<lparr>authMode := Signup, signupStep := Interests\<rparr>" "Returned (Some ()) None"]
          step_transitions_adjacent [of "initialState\<lparr>authMode := Signup, signupStep := Interests\<rparr>" "Thrown :: unit SignUpOutcome"]
          step_transitions_adjacent [of "initialState\<lparr>authMode := Signup, signupStep := Email\<rparr>" "Thrown :: unit SignUpOutcome"]
    by (simp add: indexOf_steps inj)
qed

text \<open>
  C4. On the last step with at least one interest selected, \<open>goToNextStep\<close> makes
  exactly one \<open>signUp\<close> call, whatever that call answers, and the call carries the nine
  fields email, password, first name, last name, username, gender, age, country and
  interests as entered. When the call succeeds, the state is reset: Welcome mode, the
  first step, every field empty and the username availability cleared.
\<close>

theorem goToNextStep_submits_once:
  assumes "signupStep s = Interests" and "interests (authData s) \<noteq> []"
  shows "signUpCalls (snd (goToNextStep outcome s)) =
           [\<lparr>su_email = email (authData s), su_password = password (authData s),
             su_firstName = firstName (authData s), su_lastName = lastName (authData s),
             su_username = username (authData s), su_gender = gender (authData s),
             su_age = age (authData s), su_country = country (authData s),
             su_interests = interests (authData s)\<rparr>]
       \<and> fst (goToNextStep (Returned (Some u) None) s) =
           s\<lparr>authMode := Welcome, signupStep := Email, usernameAvailable := None,
             checkingUsername := False, isLoading := False,
             authData := \<lparr>email = [], password = [], confirmPassword = [], firstName = [],
                           lastName = [], gender = [], age = [], country = [],
                           username = [], interests = []\<rparr>\<rparr>"
proof -
  have idx: "\<not> indexOf steps (signupStep s) < int (length steps) - 1"
    using assms(1) by (simp add: indexOf_steps) (simp add: steps_def)
  have calls: "signUpCalls (snd (goToNextStep outcome s)) = [signUpArgsOf (authData s)]"
    using idx by (simp add: goToNextStep_def Let_def split: SignUpOutcome.splits option.splits)
  have ok: "fst (goToNextStep (Returned (Some u) None) s) =
              (resetSignup (s\<lparr>authMode := Welcome\<rparr>))\<lparr>isLoading := False\<rparr>"
    using idx by (simp add: goToNextStep_def Let_def)
  show ?thesis
    unfolding calls ok by (simp add: signUpArgsOf_def resetSignup_def emptyAuthData_def)
qed

theorem goToNextStep_submits_once_witness:
  "signUpCalls (snd (goToNextStep (Returned (Some ()) None)
      (initialState\<lparr>authMode := Signup, signupStep := Interests, usernameAvailable := Some True,
         authData := \<lparr>email = ''a@b.com'', password = ''password123'',
           confirmPassword = ''password123'', firstName = ''Jo'', lastName = ''Doe'',
           gender = ''female'', age = ''25'', country = ''Canada'',
           username = ''uniqueName42'', interests = [''music'']\<rparr>\<rparr>))) =
     [\<lparr>su_email = ''a@b.com'', su_password = ''password123'', su_firstName = ''Jo'',
       su_lastName = ''Doe'', su_username = ''uniqueName42'', su_gender = ''female'',
       su_age = ''25'', su_country = ''Canada'', su_interests = [''music'']\<rparr>]
   \<and> fst (goToNextStep (Returned (Some ()) None)
      (initialState\<lparr>authMode := Signup, signupStep := Interests, usernameAvailable := Some True,
         authData := \<lparr>email = ''a@b.com'', password = ''password123'',
           confirmPassword = ''password123'', firstName = ''Jo'', lastName = ''Doe'',
           gender = ''female'', age = ''25'', country = ''Canada'',
           username = ''uniqueName42'', interests = [''music'']\<rparr>\<rparr>)) = initialState"
  using goToNextStep_submits_once
    [of "initialState\<lparr>authMode := Signup, signupStep := Interests, usernameAvailable := Some True,
         authData := \<lparr>email = ''a@b.com'', password = ''password123'',
           confirmPassword = ''password123'', firstName = ''Jo'', lastName = ''Doe'',
           gender = ''female'', age = ''25'', country = ''Canada'',
           username = ''uniqueName42'', interests = [''music'']\<rparr>\<rparr>"
        "Returned (Some ()) None" "()"]
  by (simp add: initialState_def emptyAuthData_def)

text \<open>
  C7. When the \<open>signUp\<close> call of the last step returns an error or throws, the only
  change to the state is that \<open>isLoading\<close> is cleared: the entered fields, the step and
  the mode are as before, the effects are the one call followed by one notification,
  and the step's gate \<open>canProceedToNext\<close> answers as before, so the same step can be
  retried.
\<close>

theorem goToNextStep_error_keeps_state:
  assumes "signupStep s = Interests"
      and "outcome = Thrown \<or> (\<exists>dat e. outcome = Returned dat (Some e))"
  shows "fst (goToNextStep outcome s) = s\<lparr>isLoading := False\<rparr>
       \<and> authData (fst (goToNextStep outcome s)) = authData s
       \<and> signupStep (fst (goToNextStep outcome s)) = signupStep s
       \<and> authMode (fst (goToNextStep outcome s)) = authMode s
       \<and> canProceedToNext (fst (goToNextStep outcome s)) = canProceedToNext s
       \<and> (\<exists>msg. snd (goToNextStep outcome s) = [SignUpCall (signUpArgsOf (authData s)), Alert msg])"
proof -
  have idx: "\<not> indexOf steps (signupStep s) < int (length steps) - 1"
    using assms(1) by (simp add: indexOf_steps) (simp add: steps_def)
  have st: "fst (goToNextStep outcome s) = s\<lparr>isLoading := False\<rparr>"
    using idx assms(2) by (auto simp: goToNextStep_def Let_def)
  have eff: "\<exists>msg. snd (goToNextStep outcome s) = [SignUpCall (signUpArgsOf (authData s)), Alert msg]"
    using idx assms(2) by (auto simp: goToNextStep_def Let_def)
  show ?thesis
    using eff assms(1) unfolding st by (simp add: canProceedToNext_def)
qed

theorem goToNextStep_error_keeps_state_witness:
  "authData (fst (goToNextStep (Returned (None :: unit option) (Some \<lparr>message = ''User already registered''\<rparr>))
      (initialState\<lparr>authMode := Signup, signupStep := Interests,
         authData := emptyAuthData\<lparr>email := ''a@b.com'', interests := [''music'']\<rparr>\<rparr>)))
     = emptyAuthData\<lparr>email := ''a@b.com'', interests := [''music'']\<rparr>
   \<and> signupStep (fst (goToNextStep (Thrown :: unit SignUpOutcome)
      (initialState\<lparr>authMode := Signup, signupStep := Interests,
         authData := emptyAuthData\<lparr>email := ''a@b.com'', interests := [''music'']\<rparr>\<rparr>))) = Interests"
  using goToNextStep_error_keeps_state
    [of "initialState\<lparr>authMode := Signup, signupStep := Interests,
         authData := emptyAuthData\<lparr>email := ''a@b.com'', interests := [''music'']\<rparr>\<rparr>"
        "Returned (None :: unit option) (Some \<lparr>message = ''User already registered''\<rparr>)"]
    goToNextStep_error_keeps_state
    [of "initialState\<lparr>authMode := Signup, signupStep := Interests,
         authData := emptyAuthData\<lparr>email := ''a@b.com'', interests := [''music'']\<rparr>\<rparr>"
        "Thrown :: unit SignUpOutcome"]
  by simp

lemma filter_neq_removeAll: "filter (\<lambda>x. x \<noteq> i) xs = removeAll i xs"
  by (induction xs) auto

text \<open>
  C10. On an interests list without duplicates, \<open>handleInterestToggle\<close> removes the id
  when it is present and appends it at the end when it is absent; the new list has no
  duplicates either, and toggling the same id twice gives back the same set of
  interests.
\<close>

theorem handleInterestToggle_toggles:
  assumes "distinct (interests (authData s))"
  shows "interests (authData (handleInterestToggle i s)) =
           (if i \<in> set (interests (authData s))
            then removeAll i (interests (authData s))
            else interests (authData s) @ [i])
       \<and> (i \<in> set (interests (authData (handleInterestToggle i s)))
            \<longleftrightarrow> i \<notin> set (interests (authData s)))
       \<and> distinct (interests (authData (handleInterestToggle i s)))
       \<and> set (interests (authData (handleInterestToggle i (handleInterestToggle i s)))) =
           set (interests (authData s))"
  using assms
  by (auto simp: handleInterestToggle_def Let_def filter_neq_removeAll distinct_removeAll)

theorem handleInterestToggle_toggles_witness:
  "distinct [''music'', ''anime'']
   \<and> interests (authData (handleInterestToggle ''music''
        (initialState\<lparr>authData := emptyAuthData\<lparr>interests := [''music'', ''anime'']\<rparr>\<rparr>))) = [''anime'']
   \<and> interests (authData (handleInterestToggle ''books''
        (initialState\<lparr>authData := emptyAuthData\<lparr>interests := [''music'', ''anime'']\<rparr>\<rparr>))) =
       [''music'', ''anime'', ''books'']"
  using handleInterestToggle_toggles
          [of "initialState\<lparr>authData := emptyAuthData\<lparr>interests := [''music'', ''anime'']\<rparr>\<rparr>" "''music''"]
        handleInterestToggle_toggles
          [of "initialState\<lparr>authData := emptyAuthData\<lparr>interests := [''music'', ''anime'']\<rparr>\<rparr>" "''books''"]
  by simp

section \<open>Properties of the data-access wrappers\<close>

lemma filter_key_unique:
  "distinct (map f xs) \<Longrightarrow> x \<in> set xs \<Longrightarrow> filter (\<lambda>r. f r = f x) xs = [x]"
proof (induction xs)
  case Nil
  then show ?case by simp
next
  case (Cons y ys)
  show ?case
  proof (cases "y = x")
    case True
    have "f x \<notin> f ` set ys"
      using Cons.prems(1) True by simp
    then have "\<forall>r \<in> set ys. f r \<noteq> f x"
      by (metis imageI)
    then have "filter (\<lambda>r. f r = f x) ys = []"
      by (simp add: filter_empty_conv)
    then show ?thesis using True by simp
  next
    case False
    then have "x \<in> set ys" using Cons.prems(2) by simp
    moreover have "f y \<noteq> f x" using Cons.prems(1) \<open>x \<in> set ys\<close> by auto
    ultimately show ?thesis using Cons by simp
  qed
qed



lemma follow_filter_present:
  assumes "distinct (fs :: FollowRow list)" and "\<lparr>follower_id = f, following_id = t\<rparr> \<in> set fs"
  shows "filter (\<lambda>r. follower_id r = f \<and> following_id r = t) fs = [\<lparr>follower_id = f, following_id = t\<rparr>]"
proof -
  have eq: "(\<lambda>r :: FollowRow. follower_id r = f \<and> following_id r = t) = (\<lambda>r. id r = id \<lparr>follower_id = f, following_id = t\<rparr>)"
    by (rule ext) auto
  show ?thesis
    unfolding eq using filter_key_unique [of id fs "\<lparr>follower_id = f, following_id = t\<rparr>"] assms
    by simp
qed

lemma follow_filter_absent:
  assumes "\<lparr>follower_id = f, following_id = t\<rparr> \<notin> set (fs :: FollowRow list)"
  shows "filter (\<lambda>r. follower_id r = f \<and> following_id r = t) fs = []"
proof -
  have "r = \<lparr>follower_id = follower_id r, following_id = following_id r\<rparr>" for r :: FollowRow
    by simp
  then have "\<not> (follower_id r = f \<and> following_id r = t)" if "r \<in> set fs" for r
    using assms that by metis
  then show ?thesis by (simp add: filter_empty_conv)
qed




lemma insert_follow_fresh:
  assumes "fault b = None" and "f \<noteq> t"
      and "\<lparr>follower_id = f, following_id = t\<rparr> \<notin> set (follows b)"
      and "f \<in> set (map profile_id (profiles b))" and "t \<in> set (map profile_id (profiles b))"
  shows "insert_follow f t b =
           (\<lparr>data = Some \<lparr>follower_id = f, following_id = t\<rparr>, error = None\<rparr>,
            (logged (InsertFollow f t) b)\<lparr>follows := follows b @ [\<lparr>follower_id = f, following_id = t\<rparr>]\<rparr>)"
  using assms by (simp add: insert_follow_def Let_def single_def)

lemma insert_follow_duplicate:
  assumes "fault b = None" and "\<lparr>follower_id = f, following_id = t\<rparr> \<in> set (follows b)"
  shows "\<exists>e. insert_follow f t b = (\<lparr>data = None, error = Some e\<rparr>, logged (InsertFollow f t) b)"
  using assms by (simp add: insert_follow_def Let_def)

lemma insert_follow_self:
  assumes "fault b = None"
  shows "\<exists>e. insert_follow f f b = (\<lparr>data = None, error = Some e\<rparr>, logged (InsertFollow f f) b)"
  using assms by (simp add: insert_follow_def Let_def)

text \<open>
  C6. Without a signed-in user \<open>followUser\<close> and \<open>unfollowUser\<close> throw. For a signed-in
  caller whose request reaches the table: following an existing profile other than
  the caller that is not yet followed returns the new row and appends exactly the
  edge (caller, target) to \<open>follows\<close>, and a second \<open>followUser\<close> for the same target
  then answers with an error and adds nothing; \<open>followUser\<close> for an edge already in
  the table answers with an error and adds nothing; \<open>followUser\<close> with the caller's
  own id answers with an error and adds nothing.
\<close>

theorem followUser_edges:
  assumes "auth_user b0 = None"
      and "auth_user b = Some user" and "fault b = None"
  shows "followUser x b0 = Inl (Error ''Not authenticated'')
       \<and> unfollowUser x b0 = Inl (Error ''Not authenticated'')
       \<and> (x \<noteq> user_id user
            \<and> \<lparr>follower_id = user_id user, following_id = x\<rparr> \<notin> set (follows b)
            \<and> user_id user \<in> set (map profile_id (profiles b))
            \<and> x \<in> set (map profile_id (profiles b)) \<longrightarrow>
           (\<exists>b1. followUser x b =
                    Inr (\<lparr>data = Some \<lparr>follower_id = user_id user, following_id = x\<rparr>,
                          error = None\<rparr>, b1)
                \<and> follows b1 = follows b @ [\<lparr>follower_id = user_id user, following_id = x\<rparr>]
                \<and> (\<exists>e b2. followUser x b1 = Inr (\<lparr>data = None, error = Some e\<rparr>, b2)
                          \<and> follows b2 = follows b1)))
       \<and> (\<lparr>follower_id = user_id user, following_id = x\<rparr> \<in> set (follows b) \<longrightarrow>
           (\<exists>e b1. followUser x b = Inr (\<lparr>data = None, error = Some e\<rparr>, b1)
                  \<and> follows b1 = follows b))
       \<and> (\<exists>e b1. followUser (user_id user) b = Inr (\<lparr>data = None, error = Some e\<rparr>, b1)
                 \<and> follows b1 = follows b)"
proof -
  let ?u = "user_id user"
  let ?edge = "\<lparr>follower_id = ?u, following_id = x\<rparr>"
  have unauth: "followUser x b0 = Inl (Error ''Not authenticated'')"
               "unfollowUser x b0 = Inl (Error ''Not authenticated'')"
    using assms(1) by (simp_all add: followUser_def unfollowUser_def)
  have call: "followUser y c = Inr (insert_follow ?u y c)" if "auth_user c = Some user" for y c
    using that by (simp add: followUser_def)
  have dup: "\<exists>e c1. followUser x c = Inr (\<lparr>data = None, error = Some e\<rparr>, c1) \<and> follows c1 = follows c"
    if "auth_user c = Some user" "fault c = None" "?edge \<in> set (follows c)" for c
  proof -
    from insert_follow_duplicate [OF that(2) that(3)]
    obtain e where "insert_follow ?u x c = (\<lparr>data = None, error = Some e\<rparr>, logged (InsertFollow ?u x) c)"
      by blast
    then show ?thesis using call [OF that(1)] by (simp add: logged_def)
  qed
  have fresh: "\<exists>b1. followUser x b = Inr (\<lparr>data = Some ?edge, error = None\<rparr>, b1)
                \<and> follows b1 = follows b @ [?edge]
                \<and> (\<exists>e b2. followUser x b1 = Inr (\<lparr>data = None, error = Some e\<rparr>, b2)
                          \<and> follows b2 = follows b1)"
    if h: "x \<noteq> ?u" "?edge \<notin> set (follows b)" "?u \<in> set (map profile_id (profiles b))"
          "x \<in> set (map profile_id (profiles b))"
  proof -
    let ?b1 = "(logged (InsertFollow ?u x) b)\<lparr>follows := follows b @ [?edge]\<rparr>"
    have first: "followUser x b = Inr (\<lparr>data = Some ?edge, error = None\<rparr>, ?b1)"
      using call [OF assms(2)] insert_follow_fresh [OF assms(3) _ h(2) h(3) h(4)] h(1) by simp
    have b1: "auth_user ?b1 = Some user" "fault ?b1 = None" "?edge \<in> set (follows ?b1)"
      using assms(2,3) by (simp_all add: logged_def)
    have "follows ?b1 = follows b @ [?edge]" by simp
    with first dup [OF b1] show ?thesis by blast
  qed
  have self: "\<exists>e b1. followUser ?u b = Inr (\<lparr>data = None, error = Some e\<rparr>, b1) \<and> follows b1 = follows b"
  proof -
    from insert_follow_self [OF assms(3)]
    obtain e where "insert_follow ?u ?u b = (\<lparr>data = None, error = Some e\<rparr>, logged (InsertFollow ?u ?u) b)"
      by blast
    then show ?thesis using call [OF assms(2)] by (simp add: logged_def)
  qed
  show ?thesis
    using unauth fresh dup [OF assms(2,3)] self by blast
qed

theorem followUser_edges_witness:
  "(\<exists>b1. followUser ''u2''
       \<lparr>auth_user = Some \<lparr>user_id = ''u1''\<rparr>,
        profiles = [\<lparr>profile_id = ''u1'', profile_username = ''alice'', is_private = False\<rparr>,
                    \<lparr>profile_id = ''u2'', profile_username = ''admin'', is_private = False\<rparr>],
        follows = [], fault = None, requests = []\<rparr> =
      Inr (\<lparr>data = Some \<lparr>follower_id = ''u1'', following_id = ''u2''\<rparr>, error = None\<rparr>, b1)
      \<and> follows b1 = [\<lparr>follower_id = ''u1'', following_id = ''u2''\<rparr>]
      \<and> (\<exists>e b2. followUser ''u2'' b1 = Inr (\<lparr>data = None, error = Some e\<rparr>, b2)
                \<and> follows b2 = follows b1))
   \<and> followUser ''u2''
       \<lparr>auth_user = None, profiles = [], follows = [], fault = None, requests = []\<rparr> =
      Inl (Error ''Not authenticated'')"
  using followUser_edges
    [of "\<lparr>auth_user = None, profiles = [], follows = [], fault = None, requests = []\<rparr>"
        "\<lparr>auth_user = Some \<lparr>user_id = ''u1''\<rparr>,
        profiles = [\<lparr>profile_id = ''u1'', profile_username = ''alice'', is_private = False\<rparr>,
                    \<lparr>profile_id = ''u2'', profile_username = ''admin'', is_private = False\<rparr>],
        follows = [], fault = None, requests = []\<rparr>"
        "\<lparr>user_id = ''u1''\<rparr>" "''u2''"]
  by simp

text \<open>
  C8. For a signed-in caller and a \<open>follows\<close> table without duplicate rows,
  \<open>isFollowing\<close> never throws; when the request goes through, its flag says whether
  the edge (caller, target) is in the table and its error is null. In particular,
  when the edge is absent the lookup answers with code \<open>PGRST116\<close> and the result is
  flag = false with error = null. When the request fails with another error, the
  flag is false and the error is passed on.
\<close>

theorem isFollowing_boolean:
  assumes "auth_user b = Some user" and "distinct (follows b)"
  shows "isFollowing x b =
           Inr (case fault b of
                  None \<Rightarrow>
                    \<lparr>isFollowing_flag =
                       (\<lparr>follower_id = user_id user, following_id = x\<rparr> \<in> set (follows b)),
                     isFollowing_error = None\<rparr>
                | Some e \<Rightarrow>
                    \<lparr>isFollowing_flag = False,
                     isFollowing_error = (if code e = ''PGRST116'' then None else Some e)\<rparr>,
                logged (SelectFollow (user_id user) x) b)
       \<and> (fault b = None \<and> \<lparr>follower_id = user_id user, following_id = x\<rparr> \<notin> set (follows b) \<longrightarrow>
            data (fst (select_follow (user_id user) x b)) = None
            \<and> map_option code (error (fst (select_follow (user_id user) x b))) = Some ''PGRST116'')"
proof (cases "fault b")
  case (Some e)
  then show ?thesis
    using assms(1) by (simp add: isFollowing_def select_follow_def isNoRows_def)
next
  case None
  show ?thesis
  proof (cases "\<lparr>follower_id = user_id user, following_id = x\<rparr> \<in> set (follows b)")
    case True
    show ?thesis
      using assms(1) None True follow_filter_present [OF assms(2) True]
      by (simp add: isFollowing_def select_follow_def single_def isNoRows_def)
  next
    case False
    show ?thesis
      using assms(1) None False follow_filter_absent [OF False]
      by (simp add: isFollowing_def select_follow_def single_def isNoRows_def)
  qed
qed

theorem isFollowing_boolean_witness:
  "isFollowing ''u2''
     \<lparr>auth_user = Some \<lparr>user_id = ''u1''\<rparr>, profiles = [],
      follows = [\<lparr>follower_id = ''u1'', following_id = ''u3''\<rparr>], fault = None, requests = []\<rparr> =
   Inr (\<lparr>isFollowing_flag = False, isFollowing_error = None\<rparr>,
        \<lparr>auth_user = Some \<lparr>user_id = ''u1''\<rparr>, profiles = [],
         follows = [\<lparr>follower_id = ''u1'', following_id = ''u3''\<rparr>], fault = None,
         requests = [SelectFollow ''u1'' ''u2'']\<rparr>)
   \<and> isFollowing ''u3''
     \<lparr>auth_user = Some \<lparr>user_id = ''u1''\<rparr>, profiles = [],
      follows = [\<lparr>follower_id = ''u1'', following_id = ''u3''\<rparr>], fault = None, requests = []\<rparr> =
   Inr (\<lparr>isFollowing_flag = True, isFollowing_error = None\<rparr>,
        \<lparr>auth_user = Some \<lparr>user_id = ''u1''\<rparr>, profiles = [],
         follows = [\<lparr>follower_id = ''u1'', following_id = ''u3''\<rparr>], fault = None,
         requests = [SelectFollow ''u1'' ''u3'']\<rparr>)
   \<and> map_option code (error (fst (select_follow ''u1'' ''u2''
     \<lparr>auth_user = Some \<lparr>user_id = ''u1''\<rparr>, profiles = [],
      follows = [\<lparr>follower_id = ''u1'', following_id = ''u3''\<rparr>], fault = None,
      requests = []\<rparr>))) = Some ''PGRST116''"
  using isFollowing_boolean
    [of "\<lparr>auth_user = Some \<lparr>user_id = ''u1''\<rparr>, profiles = [],
      follows = [\<lparr>follower_id = ''u1'', following_id = ''u3''\<rparr>], fault = None, requests = []\<rparr>"
        "\<lparr>user_id = ''u1''\<rparr>" "''u2''"]
    isFollowing_boolean
    [of "\<lparr>auth_user = Some \<lparr>user_id = ''u1''\<rparr>, profiles = [],
      follows = [\<lparr>follower_id = ''u1'', following_id = ''u3''\<rparr>], fault = None, requests = []\<rparr>"
        "\<lparr>user_id = ''u1''\<rparr>" "''u3''"]
  by (simp add: logged_def)

text \<open>
  C9. Without a signed-in user, \<open>isFollowing\<close> returns flag = false with error = null,
  does not throw and makes no table request (the service, with its list of requests,
  is returned as it was), whereas \<open>followUser\<close> and \<open>unfollowUser\<close> throw
  \<open>Not authenticated\<close>.
\<close>

theorem isFollowing_unauthenticated:
  assumes "auth_user b = None"
  shows "isFollowing x b = Inr (\<lparr>isFollowing_flag = False, isFollowing_error = None\<rparr>, b)
       \<and> followUser x b = Inl (Error ''Not authenticated'')
       \<and> unfollowUser x b = Inl (Error ''Not authenticated'')"
  using assms by (simp add: isFollowing_def followUser_def unfollowUser_def)

theorem isFollowing_unauthenticated_witness:
  "isFollowing ''u2''
     \<lparr>auth_user = None, profiles = [],
      follows = [\<lparr>follower_id = ''u1'', following_id = ''u2''\<rparr>], fault = None, requests = []\<rparr> =
   Inr (\<lparr>isFollowing_flag = False, isFollowing_error = None\<rparr>,
        \<lparr>auth_user = None, profiles = [],
         follows = [\<lparr>follower_id = ''u1'', following_id = ''u2''\<rparr>], fault = None, requests = []\<rparr>)
   \<and> unfollowUser ''u2''
     \<lparr>auth_user = None, profiles = [],
      follows = [\<lparr>follower_id = ''u1'', following_id = ''u2''\<rparr>], fault = None, requests = []\<rparr> =
   Inl (Error ''Not authenticated'')"
  using isFollowing_unauthenticated
    [of "\<lparr>auth_user = None, profiles = [],
      follows = [\<lparr>follower_id = ''u1'', following_id = ''u2''\<rparr>], fault = None, requests = []\<rparr>" "''u2''"]
  by simp

section \<open>Properties of the username availability check\<close>

text \<open>
  The check written out in the component stores, for the same response of the service,
  the \<open>available\<close> value that the wrapper of \<open>lib/database.ts\<close> returns.
\<close>

lemma resume_agrees_with_wrapper:
  "\<exists>res b'. checkUsernameAvailability name b = Inr (res, b')
      \<and> usernameAvailable
           (ui (checkUsernameAvailability_resume
                  (Answered (fst (select_profile_by_username (toLowerCase name) b))) w)) =
         available res"
  by (cases "select_profile_by_username (toLowerCase name) b")
     (simp add: checkUsernameAvailability_def checkUsernameAvailability_resume_def)

lemma settled_rev_split:
  "settled_rev (xs @ Issued t v # ys) \<Longrightarrow>
   \<exists>c older. ys = Rendered c Username v # older \<and> t = c + 500 \<and> 3 \<le> length v"
proof (induction xs rule: settled_rev.induct)
  case 1
  then show ?case by (cases ys rule: settled_rev.cases) auto
next
  case (2 c st u older)
  then show ?case by simp
next
  case (3 t' v' c st u older)
  then show ?case by simp
next
  case (4 t' v')
  then show ?case by simp
next
  case (5 t' v' t'' v'' older)
  then show ?case by simp
qed

lemma settled_history_split:
  assumes "settled_rev (rev h)" and "h = pre @ Issued t v # post"
  shows "3 \<le> length v \<and> (\<exists>c pre'. pre = pre' @ [Rendered c Username v] \<and> t = c + 500)"
proof -
  have "rev h = rev post @ Issued t v # rev pre"
    using assms(2) by simp
  with assms(1) have "settled_rev (rev post @ Issued t v # rev pre)" by simp
  from settled_rev_split [OF this]
  obtain c older where o: "rev pre = Rendered c Username v # older" "t = c + 500" "3 \<le> length v"
    by blast
  from o(1) have "pre = rev older @ [Rendered c Username v]"
    by (metis rev_rev_ident rev.simps(2))
  with o show ?thesis by blast
qed

lemma debounce_inv_rendered: "debounce_inv w \<Longrightarrow> debounce_inv (rendered s' w)"
  by (auto simp: debounce_inv_def rendered_def usernameEffect_def timer_matches_def
           split: option.splits)

lemma debounce_inv_elapse: "debounce_inv w \<Longrightarrow> debounce_inv (elapse d w)"
  by (auto simp: debounce_inv_def elapse_def checkUsernameAvailability_begin_def timer_matches_def
           split: option.splits list.splits Obs.splits)

lemma resume_keeps:
  "history (checkUsernameAvailability_resume outcome w) = history w"
  "debounceTimeout (checkUsernameAvailability_resume outcome w) = debounceTimeout w"
  by (simp_all add: checkUsernameAvailability_resume_def split: LookupOutcome.splits)

lemma debounce_inv_reply: "debounce_inv w \<Longrightarrow> debounce_inv (reply k outcome w)"
  by (auto simp: debounce_inv_def reply_def timer_matches_def resume_keeps split: option.splits)

lemma debounce_inv_awaiting:
  "debounce_inv (awaited call w) = debounce_inv w"
  "debounce_inv (w\<lparr>signUpsAwaited := n\<rparr>) = debounce_inv w"
  "debounce_inv (w\<lparr>signInsAwaited := n\<rparr>) = debounce_inv w"
  by (simp_all add: debounce_inv_def timer_matches_def awaited_def
        split: option.splits Call.splits)

lemma debounce_inv_step: "debounce_inv w \<Longrightarrow> debounce_inv (step w ev)"
  by (cases ev)
     (simp_all add: step.simps debounce_inv_rendered debounce_inv_elapse debounce_inv_reply
        debounce_inv_awaiting)

lemma debounce_inv_run: "debounce_inv w \<Longrightarrow> debounce_inv (run evs w)"
  unfolding run_def by (induction evs arbitrary: w) (simp_all add: debounce_inv_step)

lemma debounce_inv_mounted: "debounce_inv mounted"
  by (simp add: debounce_inv_def timer_matches_def mounted_def)

lemma step_elapse: "step w (Elapse d) = elapse d w"
  by (simp add: step.simps)

text \<open>
  The two parts of \<open>goToNextStep\<close> make up the whole: with the call answered at once,
  the cells end as the handler taken in one piece leaves them.
\<close>

lemma goToNextStep_in_two_parts:
  "fst (goToNextStep outcome s) =
     (case snd (goToNextStep_begin s) of
        None \<Rightarrow> fst (goToNextStep_begin s)
      | Some call \<Rightarrow> goToNextStep_settle outcome (fst (goToNextStep_begin s)))"
  by (simp add: goToNextStep_def goToNextStep_begin_def goToNextStep_settle_def Let_def
        resetSignup_def split: SignUpOutcome.splits option.splits)

lemma lookups_append: "lookups (h @ h') = lookups h @ lookups h'"
  by (induction h rule: lookups.induct) simp_all

lemma input_username_new:
  assumes "authMode (ui w) = Signup" and "signupStep (ui w) = Username"
      and "v \<noteq> username (authData (ui w))"
  shows "step w (User (Input UsernameField v)) =
           w\<lparr>ui := (ui w)\<lparr>authData := (authData (ui w))\<lparr>username := v\<rparr>\<rparr>,
             history := history w @ [Rendered (clock w) Username v],
             debounceTimeout := (if v = [] then None else Some (clock w + 500, v))\<rparr>"
  using assms
  by (simp add: step.simps handle_def inputShown_def stepOfField_def updateAuthData_def
        rendered_def usernameEffect_def awaited_def)

lemma back_to_username:
  assumes "authMode (ui w) = Signup" and "signupStep (ui w) = Interests"
  shows "step w (User PressBack) =
           w\<lparr>ui := (ui w)\<lparr>signupStep := Username\<rparr>,
             history := history w @ [Rendered (clock w) Username (username (authData (ui w)))],
             debounceTimeout :=
               (if username (authData (ui w)) = [] then None
                else Some (clock w + 500, username (authData (ui w))))\<rparr>"
proof -
  have "goToPreviousStep (ui w) = (ui w)\<lparr>signupStep := Username\<rparr>"
    using assms(2) by (simp add: goToPreviousStep_def indexOf_steps) (simp add: steps_def)
  then show ?thesis
    using assms by (simp add: step.simps handle_def rendered_def usernameEffect_def awaited_def)
qed

lemma elapse_quiet:
  assumes "\<And>due name. debounceTimeout w = Some (due, name) \<Longrightarrow> clock w + d < due"
  shows "elapse d w = w\<lparr>clock := clock w + d\<rparr>"
  using assms by (cases "debounceTimeout w") (auto simp: elapse_def)

lemma elapse_fires:
  assumes "debounceTimeout w = Some (due, name)" and "due \<le> clock w + d" and "3 \<le> length name"
  shows "elapse d w =
           w\<lparr>debounceTimeout := None, ui := (ui w)\<lparr>checkingUsername := True\<rparr>,
             history := history w @ [Issued due name], clock := clock w + d\<rparr>"
  using assms by (simp add: elapse_def checkUsernameAvailability_begin_def)

lemma elapse_short:
  assumes "\<And>due name. debounceTimeout w = Some (due, name) \<Longrightarrow> length name < 3"
  shows "history (elapse d w) = history w"
  using assms
  by (cases "debounceTimeout w") (auto simp: elapse_def checkUsernameAvailability_begin_def)

lemma three_changes_one_lookup:
  assumes "authMode (ui w) = Signup" and "signupStep (ui w) = Username"
    and "v1 \<noteq> username (authData (ui w))" "v2 \<noteq> v1" "v3 \<noteq> v2" "3 \<le> length v3"
    and "d1 < 500" "d2 < 500"
  shows "lookups (history (run [User (Input UsernameField v1), Elapse d1,
                                User (Input UsernameField v2), Elapse d2,
                                User (Input UsernameField v3), Elapse 500] w)) =
           lookups (history w) @ [(clock w + d1 + d2 + 500, v3)]"
proof -
  define w1 where "w1 = step w (User (Input UsernameField v1))"
  define w2 where "w2 = elapse d1 w1"
  define w3 where "w3 = step w2 (User (Input UsernameField v2))"
  define w4 where "w4 = elapse d2 w3"
  define w5 where "w5 = step w4 (User (Input UsernameField v3))"
  define w6 where "w6 = elapse 500 w5"
  have r: "run [User (Input UsernameField v1), Elapse d1, User (Input UsernameField v2),
                Elapse d2, User (Input UsernameField v3), Elapse 500] w = w6"
    by (simp add: run_def w1_def w2_def w3_def w4_def w5_def w6_def step_elapse)
  have w1: "w1 = w\<lparr>ui := (ui w)\<lparr>authData := (authData (ui w))\<lparr>username := v1\<rparr>\<rparr>,
             history := history w @ [Rendered (clock w) Username v1],
             debounceTimeout := (if v1 = [] then None else Some (clock w + 500, v1))\<rparr>"
    unfolding w1_def using input_username_new [OF assms(1,2,3)] by simp
  have w2: "w2 = w1\<lparr>clock := clock w + d1\<rparr>"
    unfolding w2_def using assms(7) by (subst elapse_quiet) (auto simp: w1 split: if_splits)
  have w3: "w3 = w2\<lparr>ui := (ui w2)\<lparr>authData := (authData (ui w2))\<lparr>username := v2\<rparr>\<rparr>,
             history := history w @ [Rendered (clock w) Username v1,
                                     Rendered (clock w + d1) Username v2],
             debounceTimeout := (if v2 = [] then None else Some (clock w + d1 + 500, v2))\<rparr>"
    unfolding w3_def using assms(1,2,4) by (subst input_username_new) (simp_all add: w2 w1)
  have w4: "w4 = w3\<lparr>clock := clock w + d1 + d2\<rparr>"
    unfolding w4_def using assms(8) by (subst elapse_quiet) (auto simp: w3 w2 w1 split: if_splits)
  have w5: "w5 = w4\<lparr>ui := (ui w4)\<lparr>authData := (authData (ui w4))\<lparr>username := v3\<rparr>\<rparr>,
             history := history w @ [Rendered (clock w) Username v1,
                                     Rendered (clock w + d1) Username v2,
                                     Rendered (clock w + d1 + d2) Username v3],
             debounceTimeout := Some (clock w + d1 + d2 + 500, v3)\<rparr>"
    unfolding w5_def using assms(1,2,5,6) by (subst input_username_new) (auto simp: w4 w3 w2 w1)
  have w6: "history w6 = history w @ [Rendered (clock w) Username v1,
                                      Rendered (clock w + d1) Username v2,
                                      Rendered (clock w + d1 + d2) Username v3,
                                      Issued (clock w + d1 + d2 + 500) v3]"
    unfolding w6_def using assms(6)
    by (subst elapse_fires [where due = "clock w + d1 + d2 + 500" and name = v3])
       (simp_all add: w5 w4)
  show ?thesis unfolding r w6 by (simp add: lookups_append)
qed

lemma settled_change_sends_lookup:
  assumes "authMode (ui w) = Signup" and "signupStep (ui w) = Username"
      and "v \<noteq> username (authData (ui w))" and "3 \<le> length v" and "500 \<le> d"
  shows "lookups (history (run [User (Input UsernameField v), Elapse d] w)) =
           lookups (history w) @ [(clock w + 500, v)]"
proof -
  have ne: "v \<noteq> []" using assms(4) by auto
  have c: "step w (User (Input UsernameField v)) =
             w\<lparr>ui := (ui w)\<lparr>authData := (authData (ui w))\<lparr>username := v\<rparr>\<rparr>,
               history := history w @ [Rendered (clock w) Username v],
               debounceTimeout := Some (clock w + 500, v)\<rparr>"
    using input_username_new [OF assms(1,2,3)] ne by simp
  have "history (elapse d (step w (User (Input UsernameField v)))) =
          history w @ [Rendered (clock w) Username v] @ [Issued (clock w + 500) v]"
    using assms(4,5)
    by (subst elapse_fires [where due = "clock w + 500" and name = v]) (simp_all add: c)
  then show ?thesis
    by (simp add: run_def lookups_append step_elapse)
qed

lemma short_change_sends_none:
  assumes "authMode (ui w) = Signup" and "signupStep (ui w) = Username"
      and "v \<noteq> username (authData (ui w))" and "length v < 3"
  shows "lookups (history (run [User (Input UsernameField v), Elapse d] w)) =
           lookups (history w)"
proof -
  have c: "step w (User (Input UsernameField v)) =
             w\<lparr>ui := (ui w)\<lparr>authData := (authData (ui w))\<lparr>username := v\<rparr>\<rparr>,
               history := history w @ [Rendered (clock w) Username v],
               debounceTimeout := (if v = [] then None else Some (clock w + 500, v))\<rparr>"
    using input_username_new [OF assms(1,2,3)] by simp
  have "history (elapse d (step w (User (Input UsernameField v)))) =
          history w @ [Rendered (clock w) Username v]"
    using assms(4) by (subst elapse_short) (auto simp: c split: if_splits)
  then show ?thesis
    by (simp add: run_def lookups_append step_elapse)
qed

lemma reentry_sends_lookup:
  assumes "authMode (ui w) = Signup" and "signupStep (ui w) = Interests"
      and "3 \<le> length (username (authData (ui w)))" and "500 \<le> d"
  shows "lookups (history (run [User PressBack, Elapse d] w)) =
           lookups (history w) @ [(clock w + 500, username (authData (ui w)))]"
proof -
  let ?u = "username (authData (ui w))"
  have ne: "?u \<noteq> []" using assms(3) by auto
  have c: "step w (User PressBack) =
             w\<lparr>ui := (ui w)\<lparr>signupStep := Username\<rparr>,
               history := history w @ [Rendered (clock w) Username ?u],
               debounceTimeout := Some (clock w + 500, ?u)\<rparr>"
    using back_to_username [OF assms(1,2)] ne by simp
  have "history (elapse d (step w (User PressBack))) =
          history w @ [Rendered (clock w) Username ?u] @ [Issued (clock w + 500) ?u]"
    using assms(3,4)
    by (subst elapse_fires [where due = "clock w + 500" and name = ?u]) (simp_all add: c)
  then show ?thesis
    by (simp add: run_def lookups_append step_elapse)
qed

lemma reply_stores_answer:
  assumes "k < length (lookups (history w))" and "k \<notin> set (settled w)"
  shows "usernameAvailable (ui (reply k outcome w)) =
           (case outcome of
              Rejected \<Rightarrow> None
            | Answered r \<Rightarrow>
                if isNoRows (error r) then Some True
                else if data r \<noteq> None then Some False else None)"
  using assms
  by (simp add: reply_def checkUsernameAvailability_resume_def split: LookupOutcome.splits)

text \<open>
  C2, as the code has it. In every run of the wizard from its first render, every
  lookup sent is directly preceded in the history by a render that left the wizard on
  the username step with the name looked up, exactly 500 units before it, and that
  name has at least three characters: each change of the username or of the step
  restarts or clears the timer, and only a name that stayed on the username step for
  500 units is looked up, once. On the username step, three changes less than 500
  units apart followed by 500 quiet units send exactly one more lookup, for the third
  value; a change to a new name of at least three characters followed by 500 or more
  quiet units sends exactly one more lookup, for that name, 500 units after the
  change; a change to a shorter name sends none, however long the wait. Coming back
  from the interests step with a name of at least three characters sends one more
  lookup for it, 500 units after the arrival, with no change of the field. An answer
  is not tied to the current name: in any state, the answer of any open lookup is
  written to \<open>usernameAvailable\<close>.
\<close>

theorem username_debounce:
  "(\<forall>pre t v post.
      history (run evs mounted) = pre @ Issued t v # post \<longrightarrow>
        3 \<le> length v \<and> (\<exists>c pre'. pre = pre' @ [Rendered c Username v] \<and> t = c + 500))
   \<and> (authMode (ui w) = Signup \<and> signupStep (ui w) = Username
        \<and> v1 \<noteq> username (authData (ui w)) \<and> v2 \<noteq> v1 \<and> v3 \<noteq> v2 \<and> 3 \<le> length v3
        \<and> d1 < 500 \<and> d2 < 500 \<longrightarrow>
      lookups (history (run [User (Input UsernameField v1), Elapse d1,
                             User (Input UsernameField v2), Elapse d2,
                             User (Input UsernameField v3), Elapse 500] w)) =
        lookups (history w) @ [(clock w + d1 + d2 + 500, v3)])
   \<and> (authMode (ui w) = Signup \<and> signupStep (ui w) = Username
        \<and> v \<noteq> username (authData (ui w)) \<and> 3 \<le> length v \<and> 500 \<le> d \<longrightarrow>
      lookups (history (run [User (Input UsernameField v), Elapse d] w)) =
        lookups (history w) @ [(clock w + 500, v)])
   \<and> (authMode (ui w) = Signup \<and> signupStep (ui w) = Username
        \<and> v \<noteq> username (authData (ui w)) \<and> length v < 3 \<longrightarrow>
      lookups (history (run [User (Input UsernameField v), Elapse d] w)) =
        lookups (history w))
   \<and> (authMode (ui w) = Signup \<and> signupStep (ui w) = Interests
        \<and> 3 \<le> length (username (authData (ui w))) \<and> 500 \<le> d \<longrightarrow>
      lookups (history (run [User PressBack, Elapse d] w)) =
        lookups (history w) @ [(clock w + 500, username (authData (ui w)))])
   \<and> (k < length (lookups (history w)) \<and> k \<notin> set (settled w) \<longrightarrow>
      usernameAvailable (ui (reply k outcome w)) =
        (case outcome of
           Rejected \<Rightarrow> None
         | Answered r \<Rightarrow>
             if isNoRows (error r) then Some True
             else if data r \<noteq> None then Some False else None))"
proof -
  have "settled_rev (rev (history (run evs mounted)))"
    using debounce_inv_run [OF debounce_inv_mounted, of evs] by (simp add: debounce_inv_def)
  then have a: "\<forall>pre t v post.
      history (run evs mounted) = pre @ Issued t v # post \<longrightarrow>
        3 \<le> length v \<and> (\<exists>c pre'. pre = pre' @ [Rendered c Username v] \<and> t = c + 500)"
    using settled_history_split by blast
  have b: "authMode (ui w) = Signup \<and> signupStep (ui w) = Username
        \<and> v1 \<noteq> username (authData (ui w)) \<and> v2 \<noteq> v1 \<and> v3 \<noteq> v2 \<and> 3 \<le> length v3
        \<and> d1 < 500 \<and> d2 < 500 \<longrightarrow>
      lookups (history (run [User (Input UsernameField v1), Elapse d1,
                             User (Input UsernameField v2), Elapse d2,
                             User (Input UsernameField v3), Elapse 500] w)) =
        lookups (history w) @ [(clock w + d1 + d2 + 500, v3)]"
    using three_changes_one_lookup by blast
  have c: "authMode (ui w) = Signup \<and> signupStep (ui w) = Username
        \<and> v \<noteq> username (authData (ui w)) \<and> 3 \<le> length v \<and> 500 \<le> d \<longrightarrow>
      lookups (history (run [User (Input UsernameField v), Elapse d] w)) =
        lookups (history w) @ [(clock w + 500, v)]"
    using settled_change_sends_lookup by blast
  have d: "authMode (ui w) = Signup \<and> signupStep (ui w) = Username
        \<and> v \<noteq> username (authData (ui w)) \<and> length v < 3 \<longrightarrow>
      lookups (history (run [User (Input UsernameField v), Elapse d] w)) =
        lookups (history w)"
    using short_change_sends_none by blast
  have e: "authMode (ui w) = Signup \<and> signupStep (ui w) = Interests
        \<and> 3 \<le> length (username (authData (ui w))) \<and> 500 \<le> d \<longrightarrow>
      lookups (history (run [User PressBack, Elapse d] w)) =
        lookups (history w) @ [(clock w + 500, username (authData (ui w)))]"
    using reentry_sends_lookup by blast
  have f: "k < length (lookups (history w)) \<and> k \<notin> set (settled w) \<longrightarrow>
      usernameAvailable (ui (reply k outcome w)) =
        (case outcome of
           Rejected \<Rightarrow> None
         | Answered r \<Rightarrow>
             if isNoRows (error r) then Some True
             else if data r \<noteq> None then Some False else None)"
    using reply_stores_answer by blast
  show ?thesis
    using a b c d e f by (intro conjI)
qed

theorem username_debounce_witness:
  "history (run scenarioC mounted) =
     [Rendered 0 Password [], Rendered 0 ConfirmPassword [], Rendered 0 Name [],
      Rendered 0 Gender [], Rendered 0 Age [], Rendered 0 Country [], Rendered 0 Username [],
      Rendered 0 Username ''b'', Rendered 100 Username ''bo'', Rendered 200 Username ''bob'']
     @ Issued 700 ''bob'' # []
   \<and> lookups (history (run [User (Input UsernameField ''b''), Elapse 100,
                            User (Input UsernameField ''bo''), Elapse 100,
                            User (Input UsernameField ''bob''), Elapse 500]
                       (run toUsernameStep mounted))) = [(700, ''bob'')]
   \<and> lookups (history (run [User (Input UsernameField ''bobby''), Elapse 500]
                       (run scenarioC mounted))) = [(700, ''bob''), (1200, ''bobby'')]
   \<and> lookups (history (run [User (Input UsernameField ''bo''), Elapse 1000]
                       (run toUsernameStep mounted))) = []
   \<and> lookups (history (run [User PressBack, Elapse 500]
                       (run (butlast (butlast scenarioE)) mounted))) =
       [(500, ''bob''), (1000, ''bob'')]
   \<and> usernameAvailable (ui (reply 0 noRows (run scenarioC mounted))) = Some True"
proof -
  have hist: "history (run scenarioC mounted) =
     [Rendered 0 Password [], Rendered 0 ConfirmPassword [], Rendered 0 Name [],
      Rendered 0 Gender [], Rendered 0 Age [], Rendered 0 Country [], Rendered 0 Username [],
      Rendered 0 Username ''b'', Rendered 100 Username ''bo'', Rendered 200 Username ''bob'']
     @ Issued 700 ''bob'' # []"
    by code_simp
  have start: "authMode (ui (run toUsernameStep mounted)) = Signup"
              "signupStep (ui (run toUsernameStep mounted)) = Username"
              "username (authData (ui (run toUsernameStep mounted))) = []"
              "clock (run toUsernameStep mounted) = 0"
              "lookups (history (run toUsernameStep mounted)) = []"
    by code_simp+
  have afterC: "authMode (ui (run scenarioC mounted)) = Signup"
               "signupStep (ui (run scenarioC mounted)) = Username"
               "username (authData (ui (run scenarioC mounted))) = ''bob''"
               "clock (run scenarioC mounted) = 700"
               "lookups (history (run scenarioC mounted)) = [(700, ''bob'')]"
               "settled (run scenarioC mounted) = []"
    by code_simp+
  have onInterests: "authMode (ui (run (butlast (butlast scenarioE)) mounted)) = Signup"
               "signupStep (ui (run (butlast (butlast scenarioE)) mounted)) = Interests"
               "username (authData (ui (run (butlast (butlast scenarioE)) mounted))) = ''bob''"
               "clock (run (butlast (butlast scenarioE)) mounted) = 500"
               "lookups (history (run (butlast (butlast scenarioE)) mounted)) = [(500, ''bob'')]"
    by code_simp+
  have ans: "(case noRows of
               Rejected \<Rightarrow> None
             | Answered r \<Rightarrow>
                 if isNoRows (error r) then Some True
                 else if data r \<noteq> None then Some False else None) = Some True"
    by (simp add: noRows_def single_def isNoRows_def)
  show ?thesis
    using username_debounce [where evs = scenarioC and w = "run toUsernameStep mounted"
            and ?v1.0 = "''b''" and ?v2.0 = "''bo''" and ?v3.0 = "''bob''"
            and ?d1.0 = 100 and ?d2.0 = 100 and v = "''bo''" and d = 1000]
          username_debounce [where w = "run scenarioC mounted" and v = "''bobby''" and d = 500
            and k = 0 and outcome = noRows]
          username_debounce [where w = "run (butlast (butlast scenarioE)) mounted" and d = 500]
          hist start afterC onInterests ans
    by simp
qed

text \<open>
  C2, as the claim has it, fails. An answer to a superseded lookup does overwrite: in
  scenario B the answer for \<open>bobby\<close> (taken) is in place when the late answer for \<open>bob\<close>
  arrives and replaces it, so the wizard lets the taken name \<open>bobby\<close> through; in
  scenario A the answer for \<open>bob\<close> arrives after the field changed to \<open>bobby\<close>, while
  the timer for \<open>bobby\<close> is pending, and marks the unchecked name as available. Not
  every change sends a lookup: in scenario D the field changes once, to \<open>bo\<close>, and 1000
  units later nothing has been sent. And a lookup need not follow a change: in
  scenario E the field changes once, and a second lookup for \<open>bob\<close> is sent at 1000,
  500 units after the user came back to the step.
\<close>

theorem username_lookup_counterexample:
  "lookups (history (run scenarioB mounted)) = [(500, ''bob''), (1100, ''bobby'')]
   \<and> username (authData (ui (run scenarioB mounted))) = ''bobby''
   \<and> usernameAvailable (ui (run (butlast scenarioB) mounted)) = Some False
   \<and> usernameAvailable (ui (run scenarioB mounted)) = Some True
   \<and> canProceedToNext (ui (run scenarioB mounted))
   \<and> lookups (history (run scenarioA mounted)) = [(500, ''bob'')]
   \<and> username (authData (ui (run scenarioA mounted))) = ''bobby''
   \<and> debounceTimeout (run scenarioA mounted) = Some (1100, ''bobby'')
   \<and> usernameAvailable (ui (run (butlast scenarioA) mounted)) = None
   \<and> usernameAvailable (ui (run scenarioA mounted)) = Some True
   \<and> canProceedToNext (ui (run scenarioA mounted))
   \<and> history (run scenarioD mounted) =
       history (run toUsernameStep mounted) @ [Rendered 0 Username ''bo'']
   \<and> clock (run scenarioD mounted) = 1000
   \<and> lookups (history (run scenarioD mounted)) = []
   \<and> history (run scenarioE mounted) =
       history (run toUsernameStep mounted) @
       [Rendered 0 Username ''bob'', Issued 500 ''bob'', Rendered 500 Interests ''bob'',
        Rendered 500 Username ''bob'', Issued 1000 ''bob'']
   \<and> lookups (history (run scenarioE mounted)) = [(500, ''bob''), (1000, ''bob'')]"
  by code_simp

end
